theory Spec2Isabelle
  imports Main
begin

section \<open>Time and machine integers\<close>

text \<open>
  A \<^verbatim>\<open>time.Time\<close> is an instant in nanoseconds and a \<^verbatim>\<open>time.Duration\<close> a number of
  nanoseconds; both are unbounded integers here. \<^verbatim>\<open>t.After(u)\<close> is the strict order
  \<open>u < t\<close>, \<^verbatim>\<open>t.Add(d)\<close> is \<open>t + d\<close>.
\<close>

type_synonym time = int
type_synonym duration = int

definition After :: "time \<Rightarrow> time \<Rightarrow> bool" where
  "After t u = (u < t)"

text \<open>Go's \<^verbatim>\<open>int\<close> is 64 bits wide: the value an arithmetic result wraps to.\<close>

definition int64_wrap :: "int \<Rightarrow> int" where
  "int64_wrap x = (x + 2 ^ 63) mod 2 ^ 64 - 2 ^ 63"

section \<open>The rate limiter (internal/middleware/rate\_limiter.go)\<close>

record IPLimitInfo =
  count :: int
  resetTime :: time
  lastAccess :: time

record IPRateLimiter =
  ips :: "string \<rightharpoonup> IPLimitInfo"
  maxRequest :: int
  window :: duration

text \<open>
  \<^verbatim>\<open>isAllowed\<close>, with the reading of the clock (\<^verbatim>\<open>time.Now()\<close>) as the argument \<open>now\<close>.
  The limiter is mutated in place under its lock; the model returns the new limiter.
  \<^verbatim>\<open>info.count++\<close> runs only when \<open>count < maxRequest\<close>, so it cannot overflow. The
  log line of a rejection is left out.
\<close>

definition isAllowed :: "IPRateLimiter \<Rightarrow> time \<Rightarrow> string \<Rightarrow> bool \<times> IPRateLimiter" where
  "isAllowed rl now ip =
     (case ips rl ip of
        None \<Rightarrow>
          (True, rl\<lparr>ips := (ips rl)(ip \<mapsto>
                   \<lparr>count = 1, resetTime = now + window rl, lastAccess = now\<rparr>)\<rparr>)
      | Some info0 \<Rightarrow>
          (let info = info0\<lparr>lastAccess := now\<rparr> in
           if After now (resetTime info) then
             (True, rl\<lparr>ips := (ips rl)(ip \<mapsto>
                      info\<lparr>count := 1, resetTime := now + window rl\<rparr>)\<rparr>)
           else if maxRequest rl \<le> count info then
             (False, rl\<lparr>ips := (ips rl)(ip \<mapsto> info)\<rparr>)
           else
             (True, rl\<lparr>ips := (ips rl)(ip \<mapsto> info\<lparr>count := count info + 1\<rparr>)\<rparr>)))"

text \<open>
  The two projections take the read lock only. They have the limiter as receiver, so the
  model returns the limiter they leave behind next to the value.
\<close>

definition getRemainingRequests :: "IPRateLimiter \<Rightarrow> time \<Rightarrow> string \<Rightarrow> int \<times> IPRateLimiter" where
  "getRemainingRequests rl now ip =
     (case ips rl ip of
        None \<Rightarrow> (maxRequest rl, rl)
      | Some info \<Rightarrow>
          if After now (resetTime info) then (maxRequest rl, rl)
          else (let remaining = int64_wrap (maxRequest rl - count info) in
                if remaining < 0 then (0, rl) else (remaining, rl)))"

definition getResetTime :: "IPRateLimiter \<Rightarrow> time \<Rightarrow> string \<Rightarrow> time \<times> IPRateLimiter" where
  "getResetTime rl now ip =
     (case ips rl ip of
        None \<Rightarrow> (now + window rl, rl)
      | Some info \<Rightarrow>
          if After now (resetTime info) then (now + window rl, rl)
          else (resetTime info, rl))"

text \<open>
  A run of the limiter: the calls \<^verbatim>\<open>isAllowed(ip)\<close> made one after the other, each with
  the instant its clock read, and the answers in the same order.
\<close>

fun allow_calls :: "IPRateLimiter \<Rightarrow> (time \<times> string) list \<Rightarrow> bool list \<times> IPRateLimiter" where
  "allow_calls rl [] = ([], rl)"
| "allow_calls rl ((now, ip) # cs) =
     (case isAllowed rl now ip of
        (b, rl') \<Rightarrow> (case allow_calls rl' cs of (bs, rl'') \<Rightarrow> (b # bs, rl'')))"

text \<open>The answers given to one key, in order.\<close>

definition answers_for :: "string \<Rightarrow> (time \<times> string) list \<Rightarrow> bool list \<Rightarrow> bool list" where
  "answers_for ip cs bs = map snd (filter (\<lambda>(c, b). snd c = ip) (zip cs bs))"

definition calls_for :: "string \<Rightarrow> (time \<times> string) list \<Rightarrow> time list" where
  "calls_for ip cs = map fst (filter (\<lambda>c. snd c = ip) cs)"

text \<open>
  A window of a key opens with a call that finds no entry for the key, or an entry whose
  window the clock has passed.
\<close>

definition window_opens :: "IPRateLimiter \<Rightarrow> time \<Rightarrow> string \<Rightarrow> bool" where
  "window_opens rl now ip =
     (case ips rl ip of None \<Rightarrow> True | Some info \<Rightarrow> After now (resetTime info))"

text \<open>Limiters for the concrete runs below.\<close>

definition limiter0 :: IPRateLimiter where
  "limiter0 = \<lparr>ips = Map.empty, maxRequest = 0, window = 60\<rparr>"

definition limiter2 :: IPRateLimiter where
  "limiter2 = \<lparr>ips = Map.empty, maxRequest = 2, window = 60\<rparr>"

definition limiter2_spent :: IPRateLimiter where
  "limiter2_spent =
     \<lparr>ips = [''10.0.0.1'' \<mapsto> \<lparr>count = 2, resetTime = 60, lastAccess = 10\<rparr>],
      maxRequest = 2, window = 60\<rparr>"

section \<open>Links (internal/models/link.go)\<close>

text \<open>
  The record has the field \<open>IsCustom\<close> that \<^verbatim>\<open>CreateLinkWithCustomAlias\<close> sets; instants
  count from Go's zero \<^verbatim>\<open>time.Time\<close>, and a nil \<^verbatim>\<open>*time.Time\<close> is \<open>None\<close>.
\<close>

record Link =
  ID :: nat
  ShortCode :: string
  LongURL :: string
  CreatedAt :: time
  IsActive :: bool
  ExpiresAt :: "time option"
  IsCustom :: bool

text \<open>The zero value \<^verbatim>\<open>models.Link{}\<close>, from which the struct literals of the service start.\<close>

definition zero_Link :: Link where
  "zero_Link = \<lparr>ID = 0, ShortCode = [], LongURL = [], CreatedAt = 0, IsActive = False,
                 ExpiresAt = None, IsCustom = False\<rparr>"

definition IsExpired :: "Link \<Rightarrow> time \<Rightarrow> bool" where
  "IsExpired l now = (case ExpiresAt l of None \<Rightarrow> False | Some e \<Rightarrow> After now e)"

text \<open>The fields of the struct literal in \<^verbatim>\<open>RedirectHandler\<close>.\<close>

record ClickEvent =
  LinkID :: nat
  Timestamp :: time
  UserAgent :: string
  IPAddress :: string

section \<open>The repository interface\<close>

text \<open>
  \<^verbatim>\<open>LinkRepository\<close> is an interface; the service sees the store only through its
  answers. An implementation is a pair of operations on a store of some type \<open>'r\<close>, each
  returning its answer and the store it leaves. \<^verbatim>\<open>GetLinkByShortCode\<close> answers a link or
  an error, \<^verbatim>\<open>gorm.ErrRecordNotFound\<close> when no row has the code. \<^verbatim>\<open>CreateLink\<close> takes
  a pointer: on success the answer is the struct as the store leaves it (GORM fills in
  the key and the defaults).
\<close>

datatype db_error = ErrRecordNotFound | ErrDuplicatedKey | ErrDatabase string

record 'r LinkRepository =
  repo_GetLinkByShortCode :: "string \<Rightarrow> 'r \<Rightarrow> (db_error + Link) \<times> 'r"
  repo_CreateLink :: "Link \<Rightarrow> 'r \<Rightarrow> (db_error + Link) \<times> 'r"

section \<open>The link service (internal/services/link\_service.go)\<close>

definition charset :: string where
  "charset = ''abcdefghijklmnopqrstuvwxyzABCDEFGHIJKLMNOPQRSTUVWXYZ0123456789''"

text \<open>
  \<^verbatim>\<open>rand.Reader\<close> is the sequence of the outcomes of its draws, each a number or an error;
  a position counts the draws made so far. \<^verbatim>\<open>rand.Int(rand.Reader, max)\<close> promises a
  number below \<open>max\<close>; the model does not rely on it, and indexing \<^verbatim>\<open>charset\<close> out of
  range panics as in Go.
\<close>

datatype rand_error = ErrRandRead string

type_synonym rand_source = "nat \<Rightarrow> rand_error + nat"

datatype gen_failure =
    ErrRandomNumber rand_error   \<comment> \<open>"error generating random number: %w"\<close>
  | PanicIndex nat              \<comment> \<open>index out of range\<close>
  | PanicMakeLen int            \<comment> \<open>\<^verbatim>\<open>make([]byte, length)\<close> with a negative length\<close>

text \<open>The loop of \<^verbatim>\<open>GenerateShortCode\<close>, on the number of characters still to draw.\<close>

fun gen_chars :: "nat \<Rightarrow> rand_source \<Rightarrow> nat \<Rightarrow> (gen_failure + string) \<times> nat" where
  "gen_chars 0 rnd pos = (Inr [], pos)"
| "gen_chars (Suc n) rnd pos =
     (case rnd pos of
        Inl e \<Rightarrow> (Inl (ErrRandomNumber e), Suc pos)
      | Inr idx \<Rightarrow>
          if idx < length charset then
            (case gen_chars n rnd (Suc pos) of
               (Inl f, pos') \<Rightarrow> (Inl f, pos')
             | (Inr cs, pos') \<Rightarrow> (Inr (charset ! idx # cs), pos'))
          else (Inl (PanicIndex idx), Suc pos))"

definition GenerateShortCode :: "int \<Rightarrow> rand_source \<Rightarrow> nat \<Rightarrow> (gen_failure + string) \<times> nat" where
  "GenerateShortCode len rnd pos =
     (if len < 0 then (Inl (PanicMakeLen len), pos) else gen_chars (nat len) rnd pos)"

datatype svc_failure =
    ErrGeneratingShortCode rand_error  \<comment> \<open>"error generating short code: %w"\<close>
  | ErrCheckingUniqueness db_error     \<comment> \<open>"database error checking short code uniqueness: %w"\<close>
  | ErrRetriesExhausted    \<comment> \<open>"failed to generate unique short code after multiple retries"\<close>
  | ErrCreatingLink db_error           \<comment> \<open>"error creating link in database: %w"\<close>
  | Panicked gen_failure
  | ErrAliasEmpty                      \<comment> \<open>the alias is empty\<close>
  | ErrAliasLength                     \<comment> \<open>the alias is not 3 to 20 bytes long\<close>
  | ErrAliasChars          \<comment> \<open>a byte that is no letter, digit or hyphen\<close>
  | ErrAliasReserved string            \<comment> \<open>the alias is a reserved word\<close>
  | ErrAliasTaken string               \<comment> \<open>the alias is already used\<close>
  | ErrCheckingAlias db_error          \<comment> \<open>the lookup of the alias failed\<close>
  | ErrCreatingAliasLink db_error      \<comment> \<open>the insert of the link with the alias failed\<close>

definition maxRetries :: nat where
  "maxRetries = 5"

text \<open>
  The retry loop of \<^verbatim>\<open>CreateLink\<close>, on the number of attempts left. It answers the value
  of \<^verbatim>\<open>shortCode\<close> when the loop is left: the free code, or the empty string when every
  attempt collided. An error return inside the loop is an \<open>Inl\<close>.
\<close>

fun retry_loop ::
  "'r LinkRepository \<Rightarrow> nat \<Rightarrow> rand_source \<Rightarrow> nat \<Rightarrow> 'r \<Rightarrow> (svc_failure + string) \<times> nat \<times> 'r" where
  "retry_loop repo 0 rnd pos r = (Inr [], pos, r)"
| "retry_loop repo (Suc n) rnd pos r =
     (case GenerateShortCode 6 rnd pos of
        (Inl (ErrRandomNumber e), pos') \<Rightarrow> (Inl (ErrGeneratingShortCode e), pos', r)
      | (Inl f, pos') \<Rightarrow> (Inl (Panicked f), pos', r)
      | (Inr code, pos') \<Rightarrow>
          (case repo_GetLinkByShortCode repo code r of
             (Inl ErrRecordNotFound, r') \<Rightarrow> (Inr code, pos', r')
           | (Inl e, r') \<Rightarrow> (Inl (ErrCheckingUniqueness e), pos', r')
           | (Inr found, r') \<Rightarrow> retry_loop repo n rnd pos' r'))"

definition CreateLink ::
  "'r LinkRepository \<Rightarrow> string \<Rightarrow> rand_source \<Rightarrow> nat \<Rightarrow> 'r \<Rightarrow> (svc_failure + Link) \<times> nat \<times> 'r" where
  "CreateLink repo longURL rnd pos r =
     (case retry_loop repo maxRetries rnd pos r of
        (Inl f, pos', r') \<Rightarrow> (Inl f, pos', r')
      | (Inr shortCode, pos', r') \<Rightarrow>
          if shortCode = [] then (Inl ErrRetriesExhausted, pos', r')
          else
            (case repo_CreateLink repo (zero_Link\<lparr>ShortCode := shortCode, LongURL := longURL\<rparr>) r' of
               (Inl e, r'') \<Rightarrow> (Inl (ErrCreatingLink e), pos', r'')
             | (Inr link, r'') \<Rightarrow> (Inr link, pos', r'')))"

definition GetLinkByShortCode :: "'r LinkRepository \<Rightarrow> string \<Rightarrow> 'r \<Rightarrow> (db_error + Link) \<times> 'r" where
  "GetLinkByShortCode repo shortCode r = repo_GetLinkByShortCode repo shortCode r"

text \<open>
  The pattern \<^verbatim>\<open>^[a-zA-Z0-9-]+$\<close>: one or more bytes, each in one of the three ranges or
  the hyphen. \<^verbatim>\<open>len(customAlias)\<close> counts bytes, as \<open>length\<close> does on a \<open>string\<close>.
  The answer of the lookup is a link or an error, so the test \<^verbatim>\<open>existingLink != nil\<close>
  next to \<^verbatim>\<open>err == nil\<close> has no case of its own.
\<close>

definition alias_char :: "char \<Rightarrow> bool" where
  "alias_char c =
     (let n = (of_char c :: nat) in
      (97 \<le> n \<and> n \<le> 122) \<or> (65 \<le> n \<and> n \<le> 90) \<or> (48 \<le> n \<and> n \<le> 57) \<or> n = 45)"

definition validAliasPattern :: "string \<Rightarrow> bool" where
  "validAliasPattern s = (s \<noteq> [] \<and> list_all alias_char s)"

definition reservedWords :: "string list" where
  "reservedWords = [''api'', ''health'', ''stats'', ''admin'', ''create'', ''delete'']"

definition CreateLinkWithCustomAlias ::
  "'r LinkRepository \<Rightarrow> string \<Rightarrow> string \<Rightarrow> 'r \<Rightarrow> (svc_failure + Link) \<times> 'r" where
  "CreateLinkWithCustomAlias repo longURL customAlias r =
     (if customAlias = [] then (Inl ErrAliasEmpty, r)
      else if length customAlias < 3 \<or> 20 < length customAlias then (Inl ErrAliasLength, r)
      else if \<not> validAliasPattern customAlias then (Inl ErrAliasChars, r)
      else if customAlias \<in> set reservedWords then (Inl (ErrAliasReserved customAlias), r)
      else
        (case repo_GetLinkByShortCode repo customAlias r of
           (Inr existingLink, r') \<Rightarrow> (Inl (ErrAliasTaken customAlias), r')
         | (Inl e, r') \<Rightarrow>
             if e \<noteq> ErrRecordNotFound then (Inl (ErrCheckingAlias e), r')
             else
               (case repo_CreateLink repo
                       (zero_Link\<lparr>ShortCode := customAlias, LongURL := longURL, IsCustom := True\<rparr>) r' of
                  (Inl e', r'') \<Rightarrow> (Inl (ErrCreatingAliasLink e'), r'')
                | (Inr link, r'') \<Rightarrow> (Inr link, r''))))"

section \<open>The redirect handler and the middleware\<close>

text \<open>
  A response is its status, the headers set on it and the fields of its JSON body. A
  value that the code renders into text (\<^verbatim>\<open>Format(time.RFC3339)\<close>, \<^verbatim>\<open>int(d.Seconds())\<close>,
  \<^verbatim>\<open>int(d.Minutes())\<close>) is kept as the instant or the duration that is rendered.
\<close>

datatype jv = JStr string | JInt int | JTime time | JSeconds duration | JMinutes duration

record response =
  status :: nat
  headers :: "(string \<times> jv) list"
  body :: "(string \<times> jv) list"

text \<open>
  \<^verbatim>\<open>ClickEventsChannel\<close> is a buffered channel: the events waiting in it, oldest first, and
  its capacity (\<^verbatim>\<open>make(chan models.ClickEvent, 1000)\<close> in \<^verbatim>\<open>SetupRoutes\<close>). The
  \<^verbatim>\<open>select\<close> with a \<^verbatim>\<open>default\<close> case sends when the buffer has room and takes the
  default case at once when it has none; it answers which case ran.
\<close>

record chan =
  buf :: "ClickEvent list"
  cap :: nat

definition tryEmit :: "ClickEvent \<Rightarrow> chan \<Rightarrow> bool \<times> chan" where
  "tryEmit ev ch =
     (if length (buf ch) < cap ch then (True, ch\<lparr>buf := buf ch @ [ev]\<rparr>) else (False, ch))"

datatype log_line =
    LogRetrieveError string db_error   \<comment> \<open>"Error retrieving link for %s: %v"\<close>
  | LogExpired string "time option"    \<comment> \<open>"Link %s has expired (expired at: %v)"\<close>
  | LogChannelFull string
      \<comment> \<open>"Warning: ClickEventsChannel is full, dropping click event for %s."\<close>

text \<open>What a request handler works on: the channel, the store and the log.\<close>

record 'r world =
  events :: chan
  store :: 'r
  logged :: "log_line list"

record request =
  shortCodeParam :: string
  userAgent :: string
  clientIP :: string

text \<open>
  \<^verbatim>\<open>RedirectHandler\<close>. The clock is read twice, by \<^verbatim>\<open>IsExpired\<close> and for the timestamp
  of the event: \<open>t_expiry\<close> and \<open>t_event\<close>. In the expired branch \<^verbatim>\<open>IsExpired\<close> has found
  \<^verbatim>\<open>ExpiresAt\<close> non-nil, so the instant that \<^verbatim>\<open>link.ExpiresAt.Format\<close> renders exists.
\<close>

definition RedirectHandler ::
  "'r LinkRepository \<Rightarrow> request \<Rightarrow> time \<Rightarrow> time \<Rightarrow> 'r world \<Rightarrow> response \<times> 'r world" where
  "RedirectHandler repo req t_expiry t_event w =
     (let shortCode = shortCodeParam req in
      case GetLinkByShortCode repo shortCode (store w) of
        (Inl ErrRecordNotFound, r') \<Rightarrow>
          (\<lparr>status = 404, headers = [], body = [(''error'', JStr ''Short code not found'')]\<rparr>,
           w\<lparr>store := r'\<rparr>)
      | (Inl e, r') \<Rightarrow>
          (\<lparr>status = 500, headers = [], body = [(''error'', JStr ''Internal server error'')]\<rparr>,
           w\<lparr>store := r', logged := logged w @ [LogRetrieveError shortCode e]\<rparr>)
      | (Inr link, r') \<Rightarrow>
          if IsExpired link t_expiry then
            (\<lparr>status = 410, headers = [],
              body = [(''error'', JStr ''This link has expired''),
                      (''expired_at'', JTime (the (ExpiresAt link)))]\<rparr>,
             w\<lparr>store := r', logged := logged w @ [LogExpired shortCode (ExpiresAt link)]\<rparr>)
          else
            (let clickEvent = \<lparr>LinkID = ID link, Timestamp = t_event,
                                UserAgent = userAgent req, IPAddress = clientIP req\<rparr>;
                 redirect = \<lparr>status = 302, headers = [(''Location'', JStr (LongURL link))],
                              body = []\<rparr>
             in case tryEmit clickEvent (events w) of
                  (True, ch') \<Rightarrow> (redirect, w\<lparr>events := ch', store := r'\<rparr>)
                | (False, ch') \<Rightarrow>
                    (redirect,
                     w\<lparr>events := ch', store := r',
                       logged := logged w @ [LogChannelFull shortCode]\<rparr>)))"

text \<open>
  \<^verbatim>\<open>RateLimitMiddleware\<close>. \<open>next\<close> is the rest of the chain, which \<^verbatim>\<open>c.Next()\<close> runs and
  \<^verbatim>\<open>c.Abort()\<close> skips. The clock is read three times on either path: \<open>now1\<close> by
  \<^verbatim>\<open>isAllowed\<close>, then \<open>now2\<close> and \<open>now3\<close> by \<^verbatim>\<open>getResetTime\<close> and \<^verbatim>\<open>time.Until\<close> on a
  rejection, by \<^verbatim>\<open>getRemainingRequests\<close> and \<^verbatim>\<open>getResetTime\<close> otherwise. The message
  of the 429 body is written without its accents.
\<close>

record readings =
  now1 :: time
  now2 :: time
  now3 :: time

definition RateLimitMiddleware ::
  "IPRateLimiter \<Rightarrow> readings \<Rightarrow> string \<Rightarrow> ('w \<Rightarrow> response \<times> 'w) \<Rightarrow> 'w \<Rightarrow>
     response \<times> IPRateLimiter \<times> 'w" where
  "RateLimitMiddleware limiter clk ip next w =
     (case isAllowed limiter (now1 clk) ip of
        (False, rl1) \<Rightarrow>
          (case getResetTime rl1 (now2 clk) ip of
             (reset, rl2) \<Rightarrow>
               (let secondsUntilReset = JSeconds (reset - now3 clk) in
                (\<lparr>status = 429,
                  headers = [(''X-RateLimit-Limit'', JInt (maxRequest rl2)),
                             (''X-RateLimit-Remaining'', JStr ''0''),
                             (''X-RateLimit-Reset'', JTime reset),
                             (''Retry-After'', secondsUntilReset)],
                  body = [(''error'', JStr ''Trop de requetes. Veuillez reessayer plus tard.''),
                          (''retry_after'', secondsUntilReset),
                          (''reset_at'', JTime reset),
                          (''max_requests'', JInt (maxRequest rl2)),
                          (''window_minutes'', JMinutes (window rl2))]\<rparr>,
                 rl2, w)))
      | (True, rl1) \<Rightarrow>
          (case getRemainingRequests rl1 (now2 clk) ip of
             (remaining, rl2) \<Rightarrow>
               (case getResetTime rl2 (now3 clk) ip of
                  (reset, rl3) \<Rightarrow>
                    (case next w of
                       (resp, w') \<Rightarrow>
                         (resp\<lparr>headers := [(''X-RateLimit-Limit'', JInt (maxRequest rl3)),
                                             (''X-RateLimit-Remaining'', JInt remaining),
                                             (''X-RateLimit-Reset'', JTime reset)] @ headers resp\<rparr>,
                          rl3, w')))))"

text \<open>
  Modelled from the spec: the place where the limiter is installed on the router. The
  server command that builds the router is not among the sources; \<^verbatim>\<open>SetupRoutes\<close> only
  registers \<^verbatim>\<open>RedirectHandler\<close> on \<^verbatim>\<open>GET /:shortCode\<close>. Section 4.5 of the specification
  has \<^verbatim>\<open>RateLimiter.allow\<close> on the client key as the first step of every redirect, so a
  redirect request runs \<^verbatim>\<open>RateLimitMiddleware\<close> with the client address as key and
  \<^verbatim>\<open>RedirectHandler\<close> as the rest of the chain.
\<close>

definition RedirectPipeline ::
  "'r LinkRepository \<Rightarrow> IPRateLimiter \<Rightarrow> readings \<Rightarrow> request \<Rightarrow> time \<Rightarrow> time \<Rightarrow> 'r world \<Rightarrow>
     response \<times> IPRateLimiter \<times> 'r world" where
  "RedirectPipeline repo limiter clk req t_expiry t_event w =
     RateLimitMiddleware limiter clk (clientIP req) (RedirectHandler repo req t_expiry t_event) w"

section \<open>Stores for concrete runs, and the vocabulary of the properties\<close>

text \<open>
  An in-memory table with a unique index on the short code, standing for the SQL store:
  the lookup answers the first row with the code, the insert refuses a code that a row
  has and otherwise appends the row with the next key.
\<close>

definition table_repo :: "Link list LinkRepository" where
  "table_repo =
     \<lparr>repo_GetLinkByShortCode = (\<lambda>code rows.
        (case find (\<lambda>l. ShortCode l = code) rows of
           None \<Rightarrow> Inl ErrRecordNotFound
         | Some l \<Rightarrow> Inr l, rows)),
      repo_CreateLink = (\<lambda>link rows.
        if list_ex (\<lambda>l. ShortCode l = ShortCode link) rows then (Inl ErrDuplicatedKey, rows)
        else (let l' = link\<lparr>ID := Suc (length rows), IsActive := True\<rparr>
              in (Inr l', rows @ [l'])))\<rparr>"

text \<open>
  The same table shared with another client: the rows that client is about to insert
  are committed right after the next lookup, between the check and the insert of a
  check-then-insert.
\<close>

definition racy_repo :: "(Link list \<times> Link list) LinkRepository" where
  "racy_repo =
     \<lparr>repo_GetLinkByShortCode = (\<lambda>code (rows, pending).
        (fst (repo_GetLinkByShortCode table_repo code rows), (rows @ pending, []))),
      repo_CreateLink = (\<lambda>link (rows, pending).
        (case repo_CreateLink table_repo link rows of (a, rows') \<Rightarrow> (a, (rows', pending))))\<rparr>"

text \<open>The first \<open>n\<close> candidates that the random source yields from position \<open>pos\<close> on.\<close>

fun candidates :: "rand_source \<Rightarrow> nat \<Rightarrow> nat \<Rightarrow> string list option" where
  "candidates rnd pos 0 = Some []"
| "candidates rnd pos (Suc n) =
     (case GenerateShortCode 6 rnd pos of
        (Inr code, pos') \<Rightarrow> map_option ((#) code) (candidates rnd pos' n)
      | (Inl f, pos') \<Rightarrow> None)"

text \<open>The existence checks of a list of codes, one after the other: the answers, and the store left.\<close>

fun lookups :: "'r LinkRepository \<Rightarrow> string list \<Rightarrow> 'r \<Rightarrow> (db_error + Link) list \<times> 'r" where
  "lookups repo [] r = ([], r)"
| "lookups repo (c # cs) r =
     (case repo_GetLinkByShortCode repo c r of
        (a, r') \<Rightarrow> (case lookups repo cs r' of (as, r'') \<Rightarrow> (a # as, r'')))"

text \<open>What GORM's \<^verbatim>\<open>Create\<close> promises of the struct it fills in: the short code stays.\<close>

definition keeps_code :: "'r LinkRepository \<Rightarrow> bool" where
  "keeps_code repo =
     (\<forall>l r l' r'. repo_CreateLink repo l r = (Inr l', r') \<longrightarrow> ShortCode l' = ShortCode l)"

text \<open>
  The number of characters of a UTF-8 string: every byte starts a character but the
  continuation bytes, which are the bytes from 128 to 191.
\<close>

definition utf8_chars :: "string \<Rightarrow> nat" where
  "utf8_chars s =
     length (filter (\<lambda>c. \<not> (128 \<le> (of_char c :: nat) \<and> (of_char c :: nat) < 192)) s)"

text \<open>
  The rules of a custom alias in the words of the specification, the order in which it
  lists them, and the first rule of that order that an alias violates. The length of an
  alias is its number of characters, as the comment and the message of the length test
  word it ("entre 3 et 20 caracteres").
\<close>

datatype alias_rule = NonEmpty | LengthIn3To20 | LettersDigitsHyphen | NotReserved

definition letters :: string where
  "letters = ''abcdefghijklmnopqrstuvwxyzABCDEFGHIJKLMNOPQRSTUVWXYZ''"

definition digits :: string where
  "digits = ''0123456789''"

fun satisfies :: "string \<Rightarrow> alias_rule \<Rightarrow> bool" where
  "satisfies a NonEmpty = (a \<noteq> [])"
| "satisfies a LengthIn3To20 = (3 \<le> utf8_chars a \<and> utf8_chars a \<le> 20)"
| "satisfies a LettersDigitsHyphen =
     list_all (\<lambda>c. c \<in> set letters \<or> c \<in> set digits \<or> c = CHR ''-'') a"
| "satisfies a NotReserved =
     (a \<notin> {''api'', ''health'', ''stats'', ''admin'', ''create'', ''delete''})"

definition rule_order :: "alias_rule list" where
  "rule_order = [NonEmpty, LengthIn3To20, LettersDigitsHyphen, NotReserved]"

definition first_violated :: "string \<Rightarrow> alias_rule option" where
  "first_violated a = find (\<lambda>rule. \<not> satisfies a rule) rule_order"

fun rule_error :: "alias_rule \<Rightarrow> string \<Rightarrow> svc_failure" where
  "rule_error NonEmpty a = ErrAliasEmpty"
| "rule_error LengthIn3To20 a = ErrAliasLength"
| "rule_error LettersDigitsHyphen a = ErrAliasChars"
| "rule_error NotReserved a = ErrAliasReserved a"

text \<open>Random sources and rows for the concrete runs.\<close>

definition rnd_abc :: rand_source where
  "rnd_abc n = Inr (n mod 3)"

definition rnd_abc_then_a :: rand_source where
  "rnd_abc_then_a n = Inr (if n < 6 then n mod 3 else 0)"

definition link_abc :: Link where
  "link_abc = zero_Link\<lparr>ID := 1, ShortCode := ''abcabc'', LongURL := ''https://example.org'',
                        IsActive := True\<rparr>"

definition link_aaa :: Link where
  "link_aaa = zero_Link\<lparr>ID := 2, ShortCode := ''aaaaaa'', LongURL := ''https://example.com'',
                        IsActive := True\<rparr>"

definition link_promo :: Link where
  "link_promo = zero_Link\<lparr>ID := 1, ShortCode := ''promo'', LongURL := ''https://example.org'',
                          IsActive := True, IsCustom := True\<rparr>"

text \<open>
  Two aliases with the letter e acute, which UTF-8 writes as the bytes C3 A9: the letter
  followed by an a (2 characters, 3 bytes), and the letter 11 times (11 characters, 22
  bytes).
\<close>

definition e_acute :: string where
  "e_acute = [CHR 0xC3, CHR 0xA9]"

definition alias_e_acute_a :: string where
  "alias_e_acute_a = e_acute @ ''a''"

definition alias_11_e_acute :: string where
  "alias_11_e_acute = concat (replicate 11 e_acute)"

text \<open>Links, requests and handler worlds for the concrete runs.\<close>

definition link_old :: Link where
  "link_old = zero_Link\<lparr>ID := 7, ShortCode := ''old123'', LongURL := ''https://example.org/a'',
                        IsActive := True, ExpiresAt := Some 5\<rparr>"

definition link_live :: Link where
  "link_live = zero_Link\<lparr>ID := 8, ShortCode := ''liv456'', LongURL := ''https://example.org/b'',
                         IsActive := True, ExpiresAt := Some 500\<rparr>"

definition click0 :: ClickEvent where
  "click0 = \<lparr>LinkID = 8, Timestamp = 1, UserAgent = ''curl'', IPAddress = ''10.0.0.9''\<rparr>"

definition world_full :: "Link list world" where
  "world_full = \<lparr>events = \<lparr>buf = [click0, click0], cap = 2\<rparr>, store = [link_old, link_live],
                  logged = []\<rparr>"

definition world_idle :: "Link list world" where
  "world_idle = \<lparr>events = \<lparr>buf = [], cap = 2\<rparr>, store = [link_old, link_live], logged = []\<rparr>"

definition req_old :: request where
  "req_old = \<lparr>shortCodeParam = ''old123'', userAgent = ''curl'', clientIP = ''10.0.0.1''\<rparr>"

definition req_live :: request where
  "req_live = \<lparr>shortCodeParam = ''liv456'', userAgent = ''curl'', clientIP = ''10.0.0.1''\<rparr>"

definition at30 :: readings where
  "at30 = \<lparr>now1 = 30, now2 = 30, now3 = 30\<rparr>"

section \<open>Properties of the rate limiter\<close>

lemma isAllowed_config:
  "maxRequest (snd (isAllowed rl now ip)) = maxRequest rl \<and>
   window (snd (isAllowed rl now ip)) = window rl"
  by (simp add: isAllowed_def Let_def split: option.splits)

lemma isAllowed_other_key:
  "k \<noteq> ip \<Longrightarrow> ips (snd (isAllowed rl now k)) ip = ips rl ip"
  by (simp add: isAllowed_def Let_def split: option.splits)

lemma isAllowed_opens:
  "window_opens rl now ip \<Longrightarrow>
   fst (isAllowed rl now ip) \<and>
   (\<exists>info. ips (snd (isAllowed rl now ip)) ip = Some info \<and>
      count info = 1 \<and> resetTime info = now + window rl \<and> lastAccess info = now)"
  by (auto simp: isAllowed_def window_opens_def Let_def split: option.splits)

lemma isAllowed_within:
  "ips rl ip = Some info \<Longrightarrow> \<not> After now (resetTime info) \<Longrightarrow>
   fst (isAllowed rl now ip) = (count info < maxRequest rl) \<and>
   (\<exists>info'. ips (snd (isAllowed rl now ip)) ip = Some info' \<and>
      count info' = (if count info < maxRequest rl then count info + 1 else count info) \<and>
      resetTime info' = resetTime info \<and> lastAccess info' = now)"
  by (auto simp: isAllowed_def Let_def)

lemma allow_calls_within:
  "ips rl ip = Some info \<Longrightarrow>
   \<forall>t \<in> set (calls_for ip cs). \<not> After t (resetTime info) \<Longrightarrow>
   answers_for ip cs (fst (allow_calls rl cs)) =
     map (\<lambda>i. count info + int i < maxRequest rl) [0..<length (calls_for ip cs)]"
proof (induction cs arbitrary: rl info)
  case Nil
  then show ?case by (simp add: answers_for_def calls_for_def)
next
  case (Cons c cs)
  obtain now k where c: "c = (now, k)" by (cases c)
  obtain b rl' where step: "isAllowed rl now k = (b, rl')" by (cases "isAllowed rl now k")
  obtain bs rl'' where rest: "allow_calls rl' cs = (bs, rl'')" by (cases "allow_calls rl' cs")
  have cfg: "maxRequest rl' = maxRequest rl"
    using isAllowed_config [of rl now k] step by simp
  show ?case
  proof (cases "k = ip")
    case False
    have same: "ips rl' ip = Some info"
      using isAllowed_other_key [OF False, of rl now] step Cons.prems(1) by simp
    have "\<forall>t \<in> set (calls_for ip cs). \<not> After t (resetTime info)"
      using Cons.prems(2) False c by (simp add: calls_for_def)
    from Cons.IH [OF same this] show ?thesis
      using False c step rest cfg by (simp add: answers_for_def calls_for_def)
  next
    case True
    have inw: "\<not> After now (resetTime info)"
      using Cons.prems(2) True c by (simp add: calls_for_def)
    from isAllowed_within [OF Cons.prems(1) inw] step True
    obtain info' where b: "b = (count info < maxRequest rl)"
      and i': "ips rl' ip = Some info'"
      and c': "count info' = (if count info < maxRequest rl then count info + 1 else count info)"
      and r': "resetTime info' = resetTime info"
      by auto
    have "\<forall>t \<in> set (calls_for ip cs). \<not> After t (resetTime info')"
      using Cons.prems(2) True c r' by (simp add: calls_for_def)
    from Cons.IH [OF i' this]
    have ih: "answers_for ip cs bs =
        map (\<lambda>i. count info' + int i < maxRequest rl) [0..<length (calls_for ip cs)]"
      using rest cfg by simp
    have shift: "map (\<lambda>i. count info' + int i < maxRequest rl) [0..<n] =
                 map (\<lambda>i. count info + int (Suc i) < maxRequest rl) [0..<n]" for n
      using c' by (auto split: if_splits)
    have "answers_for ip (c # cs) (fst (allow_calls rl (c # cs))) = b # answers_for ip cs bs"
      using True c step rest by (simp add: answers_for_def)
    also have "\<dots> = (count info + int 0 < maxRequest rl) #
        map (\<lambda>i. count info + int (Suc i) < maxRequest rl) [0..<length (calls_for ip cs)]"
      using b ih shift by simp
    also have "\<dots> = map (\<lambda>i. count info + int i < maxRequest rl)
        [0..<Suc (length (calls_for ip cs))]"
      by (simp only: map_upt_Suc)
    finally show ?thesis using True c by (simp add: calls_for_def)
  qed
qed


text \<open>
  C1, as the code has it. Let a window of key \<open>ip\<close> open at \<open>t0\<close>, and let every later
  call for \<open>ip\<close> in the run \<open>cs\<close> come before the clock has passed the end of the
  window; calls for other keys may come in between, at any time. When the limit is at
  least 1, the answers to key \<open>ip\<close> are: true for the first \<open>maxRequest\<close> calls, false
  for the call after them and for every later one. A call that is rejected leaves the
  stored count of its key as it was.
\<close>

theorem allow_within_window:
  assumes "1 \<le> maxRequest rl"
    and "window_opens rl t0 ip"
    and "\<forall>t \<in> set (calls_for ip cs). \<not> After t (t0 + window rl)"
  shows "answers_for ip ((t0, ip) # cs) (fst (allow_calls rl ((t0, ip) # cs))) =
           map (\<lambda>i. int i < maxRequest rl) [0..<Suc (length (calls_for ip cs))]
         \<and> (\<not> fst (isAllowed rl' now ip') \<longrightarrow>
              map_option count (ips (snd (isAllowed rl' now ip')) ip') =
              map_option count (ips rl' ip'))"
proof
  obtain b rl1 where step: "isAllowed rl t0 ip = (b, rl1)" by (cases "isAllowed rl t0 ip")
  obtain bs rl2 where rest: "allow_calls rl1 cs = (bs, rl2)" by (cases "allow_calls rl1 cs")
  from isAllowed_opens [OF assms(2)] step
  obtain info where b: "b" and i: "ips rl1 ip = Some info" and c: "count info = 1"
    and r: "resetTime info = t0 + window rl"
    by auto
  have cfg: "maxRequest rl1 = maxRequest rl"
    using isAllowed_config [of rl t0 ip] step by simp
  have "\<forall>t \<in> set (calls_for ip cs). \<not> After t (resetTime info)"
    using assms(3) r by simp
  from allow_calls_within [OF i this]
  have tl: "answers_for ip cs bs =
      map (\<lambda>i. int (Suc i) < maxRequest rl) [0..<length (calls_for ip cs)]"
    using rest cfg c by (simp add: add.commute)
  have "answers_for ip ((t0, ip) # cs) (fst (allow_calls rl ((t0, ip) # cs))) =
        b # answers_for ip cs bs"
    using step rest by (simp add: answers_for_def)
  also have "\<dots> = (int 0 < maxRequest rl) #
      map (\<lambda>i. int (Suc i) < maxRequest rl) [0..<length (calls_for ip cs)]"
    using b tl assms(1) by simp
  also have "\<dots> = map (\<lambda>i. int i < maxRequest rl) [0..<Suc (length (calls_for ip cs))]"
    by (simp only: map_upt_Suc)
  finally show "answers_for ip ((t0, ip) # cs) (fst (allow_calls rl ((t0, ip) # cs))) =
      map (\<lambda>i. int i < maxRequest rl) [0..<Suc (length (calls_for ip cs))]" .
next
  show "\<not> fst (isAllowed rl' now ip') \<longrightarrow>
      map_option count (ips (snd (isAllowed rl' now ip')) ip') =
      map_option count (ips rl' ip')"
    by (simp add: isAllowed_def Let_def split: option.splits)
qed

theorem allow_within_window_witness:
  "answers_for ''a'' [(0, ''a''), (5, ''b''), (10, ''a''), (60, ''a'')]
     (fst (allow_calls limiter2 [(0, ''a''), (5, ''b''), (10, ''a''), (60, ''a'')])) =
   [True, True, False]
   \<and> \<not> fst (isAllowed limiter2_spent 60 ''10.0.0.1'')
   \<and> map_option count (ips (snd (isAllowed limiter2_spent 60 ''10.0.0.1'')) ''10.0.0.1'') = Some 2"
  using allow_within_window [of limiter2 0 "''a''" "[(5, ''b''), (10, ''a''), (60, ''a'')]"
      limiter2_spent 60 "''10.0.0.1''"]
  by (simp add: limiter2_def limiter2_spent_def window_opens_def calls_for_def After_def
      isAllowed_def Let_def upt_rec)

text \<open>
  C1 as stated fails when the limit is 0: the call that opens a window is the
  (0+1)-th call of the window, and it is allowed.
\<close>

theorem allow_zero_limit_counterexample:
  "maxRequest limiter0 = 0 \<and> fst (allow_calls limiter0 [(0, ''a'')]) = [True]"
  by (simp add: limiter0_def isAllowed_def)

text \<open>
  C2, as the code has it. For a key with an entry, a call whose clock reads strictly after
  \<open>resetTime\<close> is allowed, sets the count to exactly 1 and moves \<open>resetTime\<close> to
  \<open>now + window\<close>.
\<close>

theorem allow_after_reset:
  assumes "ips rl ip = Some info" and "After now (resetTime info)"
  shows "isAllowed rl now ip =
           (True, rl\<lparr>ips := (ips rl)(ip \<mapsto>
                    \<lparr>count = 1, resetTime = now + window rl, lastAccess = now\<rparr>)\<rparr>)"
  using assms by (cases info) (simp add: isAllowed_def Let_def)

theorem allow_after_reset_witness:
  "fst (isAllowed limiter2_spent 61 ''10.0.0.1'') \<and>
   ips (snd (isAllowed limiter2_spent 61 ''10.0.0.1'')) ''10.0.0.1'' =
     Some \<lparr>count = 1, resetTime = 121, lastAccess = 61\<rparr>"
  using allow_after_reset [of limiter2_spent "''10.0.0.1''"
      "\<lparr>count = 2, resetTime = 60, lastAccess = 10\<rparr>" 61]
  by (simp add: limiter2_spent_def After_def)

text \<open>
  C2 as stated fails on the boundary: at \<open>now = resetTime\<close> the window has not passed for
  \<^verbatim>\<open>now.After(info.resetTime)\<close>, so a key that has spent its limit is rejected and neither
  the count nor \<open>resetTime\<close> is reset.
\<close>

theorem allow_at_reset_counterexample:
  "\<not> fst (isAllowed limiter2_spent 60 ''10.0.0.1'') \<and>
   ips (snd (isAllowed limiter2_spent 60 ''10.0.0.1'')) ''10.0.0.1'' =
     Some \<lparr>count = 2, resetTime = 60, lastAccess = 60\<rparr>"
  by (simp add: limiter2_spent_def isAllowed_def After_def Let_def)

text \<open>
  C9. \<^verbatim>\<open>getRemainingRequests\<close> and \<^verbatim>\<open>getResetTime\<close> leave the whole limiter as it
  was, for every key, limiter and clock reading: no entry is created and no field of an
  entry changes. \<^verbatim>\<open>isAllowed\<close> is the operation that mutates: on a key without an
  entry it leaves a different limiter.
\<close>

theorem projections_read_only:
  "snd (getRemainingRequests rl now ip) = rl \<and>
   snd (getResetTime rl now ip) = rl \<and>
   (ips rl ip = None \<longrightarrow> snd (isAllowed rl now ip) \<noteq> rl)"
proof (intro conjI impI)
  show "snd (getRemainingRequests rl now ip) = rl"
    by (simp add: getRemainingRequests_def Let_def split: option.splits)
  show "snd (getResetTime rl now ip) = rl"
    by (simp add: getResetTime_def split: option.splits)
  assume none: "ips rl ip = None"
  have "ips (snd (isAllowed rl now ip)) ip \<noteq> None"
    using none by (simp add: isAllowed_def)
  with none show "snd (isAllowed rl now ip) \<noteq> rl" by auto
qed

theorem projections_read_only_witness:
  "snd (getRemainingRequests limiter2_spent 30 ''10.0.0.1'') = limiter2_spent \<and>
   snd (getResetTime limiter2_spent 30 ''10.0.0.1'') = limiter2_spent \<and>
   snd (getRemainingRequests limiter2 30 ''10.0.0.1'') = limiter2 \<and>
   snd (isAllowed limiter2 30 ''10.0.0.1'') \<noteq> limiter2"
  using projections_read_only [of limiter2_spent 30 "''10.0.0.1''"]
    projections_read_only [of limiter2 30 "''10.0.0.1''"]
  by (simp add: limiter2_def)

text \<open>
  C10. A call for a key with no entry stores an entry with count 1 and answers true,
  whatever \<open>maxRequest\<close> is: the branch never reads it. So does the call that finds the
  window passed. With a limit of 0 or below, the call that opens a window is still
  allowed.
\<close>

theorem first_request_always_allowed:
  assumes "window_opens rl now ip"
  shows "fst (isAllowed rl now ip) \<and>
         map_option count (ips (snd (isAllowed rl now ip)) ip) = Some 1 \<and>
         (ips rl ip = None \<longrightarrow>
            isAllowed rl now ip =
              (True, rl\<lparr>ips := (ips rl)(ip \<mapsto>
                       \<lparr>count = 1, resetTime = now + window rl, lastAccess = now\<rparr>)\<rparr>))"
  using assms
  by (auto simp: isAllowed_def window_opens_def Let_def split: option.splits)

theorem first_request_always_allowed_witness:
  "maxRequest limiter0 = 0 \<and>
   fst (isAllowed limiter0 7 ''10.0.0.1'') \<and>
   map_option count (ips (snd (isAllowed limiter0 7 ''10.0.0.1'')) ''10.0.0.1'') = Some 1 \<and>
   fst (isAllowed (limiter2_spent\<lparr>maxRequest := - 3\<rparr>) 61 ''10.0.0.1'')"
  using first_request_always_allowed [of limiter0 7 "''10.0.0.1''"]
    first_request_always_allowed [of "limiter2_spent\<lparr>maxRequest := - 3\<rparr>" 61 "''10.0.0.1''"]
  by (simp add: limiter0_def limiter2_spent_def window_opens_def After_def)

section \<open>Properties of the link service\<close>

lemma gen_chars_ok:
  "gen_chars n rnd pos = (Inr cs, pos') \<Longrightarrow>
   length cs = n \<and> set cs \<subseteq> set charset \<and> pos' = pos + n"
proof (induction n arbitrary: pos cs pos')
  case 0
  then show ?case by simp
next
  case (Suc n)
  from Suc.prems obtain idx where idx: "rnd pos = Inr idx" "idx < length charset"
    by (auto split: sum.splits if_splits)
  from Suc.prems idx obtain cs0 where rec: "gen_chars n rnd (Suc pos) = (Inr cs0, pos')"
    and cs: "cs = charset ! idx # cs0"
    by (auto split: sum.splits prod.splits)
  from Suc.IH [OF rec] idx cs show ?case by auto
qed

lemma GenerateShortCode_ok:
  "GenerateShortCode 6 rnd pos = (Inr code, pos') \<Longrightarrow>
   length code = 6 \<and> set code \<subseteq> set charset \<and> pos' = pos + 6"
  using gen_chars_ok [of 6 rnd pos code pos'] by (simp add: GenerateShortCode_def)

lemma retry_loop_exhausted:
  "candidates rnd pos n = Some cs \<Longrightarrow>
   \<forall>a \<in> set (fst (lookups repo cs r)). \<not> isl a \<Longrightarrow>
   retry_loop repo n rnd pos r = (Inr [], pos + 6 * n, snd (lookups repo cs r))"
proof (induction n arbitrary: pos r cs)
  case 0
  then show ?case by simp
next
  case (Suc n)
  from Suc.prems(1) obtain code pos' cs0 where
    gen: "GenerateShortCode 6 rnd pos = (Inr code, pos')"
    and rest: "candidates rnd pos' n = Some cs0" and cs: "cs = code # cs0"
    by (auto split: prod.splits sum.splits)
  have pos': "pos' = pos + 6" using GenerateShortCode_ok [OF gen] by simp
  obtain a r1 where get: "repo_GetLinkByShortCode repo code r = (a, r1)"
    by (cases "repo_GetLinkByShortCode repo code r")
  obtain as r2 where lk: "lookups repo cs0 r1 = (as, r2)" by (cases "lookups repo cs0 r1")
  from Suc.prems(2) cs get lk have a: "\<not> isl a" and as: "\<forall>a \<in> set (fst (lookups repo cs0 r1)). \<not> isl a"
    by auto
  from a obtain found where found: "a = Inr found" by (cases a) auto
  from Suc.IH [OF rest as]
  have "retry_loop repo n rnd pos' r1 = (Inr [], pos' + 6 * n, r2)" using lk by simp
  then show ?case using gen get found cs lk pos' by simp
qed

lemma retry_loop_found:
  "retry_loop repo n rnd pos r = (Inr code, pos', r') \<Longrightarrow> code \<noteq> [] \<Longrightarrow>
   \<exists>k cs. k < n \<and> candidates rnd pos (Suc k) = Some (cs @ [code]) \<and>
     (\<forall>a \<in> set (fst (lookups repo cs r)). \<not> isl a) \<and>
     repo_GetLinkByShortCode repo code (snd (lookups repo cs r)) = (Inl ErrRecordNotFound, r') \<and>
     pos' = pos + 6 * Suc k"
proof (induction n arbitrary: pos r)
  case 0
  then show ?case by simp
next
  case (Suc n)
  from Suc.prems(1) obtain c p1 where gen: "GenerateShortCode 6 rnd pos = (Inr c, p1)"
    by (auto split: prod.splits sum.splits gen_failure.splits)
  have p1: "p1 = pos + 6" using GenerateShortCode_ok [OF gen] by simp
  obtain a r1 where get: "repo_GetLinkByShortCode repo c r = (a, r1)"
    by (cases "repo_GetLinkByShortCode repo c r")
  show ?case
  proof (cases a)
    case (Inl e)
    with Suc.prems(1) gen get have e: "e = ErrRecordNotFound" and "code = c" "pos' = p1" "r' = r1"
      by (auto split: db_error.splits)
    then have "candidates rnd pos (Suc 0) = Some ([] @ [code])"
      using gen by simp
    moreover have "repo_GetLinkByShortCode repo code (snd (lookups repo [] r)) = (Inl ErrRecordNotFound, r')"
      using get Inl e \<open>code = c\<close> \<open>r' = r1\<close> by simp
    ultimately show ?thesis using p1 \<open>pos' = p1\<close>
      by (intro exI [of _ 0] exI [of _ "[]"]) simp
  next
    case (Inr found)
    with Suc.prems(1) gen get have rec: "retry_loop repo n rnd p1 r1 = (Inr code, pos', r')"
      by simp
    from Suc.IH [OF rec Suc.prems(2)] obtain k cs where k: "k < n"
      and cand: "candidates rnd p1 (Suc k) = Some (cs @ [code])"
      and coll: "\<forall>a \<in> set (fst (lookups repo cs r1)). \<not> isl a"
      and chk: "repo_GetLinkByShortCode repo code (snd (lookups repo cs r1)) = (Inl ErrRecordNotFound, r')"
      and pos': "pos' = p1 + 6 * Suc k"
      by blast
    have "candidates rnd pos (Suc (Suc k)) = Some ((c # cs) @ [code])"
      using gen cand by simp
    moreover have "\<forall>a \<in> set (fst (lookups repo (c # cs) r)). \<not> isl a"
      using coll get Inr by (auto split: prod.splits)
    moreover have "repo_GetLinkByShortCode repo code (snd (lookups repo (c # cs) r)) = (Inl ErrRecordNotFound, r')"
      using chk get by (auto split: prod.splits)
    ultimately show ?thesis using k pos' p1
      by (intro exI [of _ "Suc k"] exI [of _ "c # cs"]) simp
  qed
qed

lemma candidates_ok:
  "candidates rnd pos n = Some cs \<Longrightarrow>
   length cs = n \<and> (\<forall>c \<in> set cs. length c = 6 \<and> set c \<subseteq> set charset)"
proof (induction n arbitrary: pos cs)
  case 0
  then show ?case by simp
next
  case (Suc n)
  from Suc.prems obtain code pos' cs0 where
    gen: "GenerateShortCode 6 rnd pos = (Inr code, pos')"
    and rest: "candidates rnd pos' n = Some cs0" and cs: "cs = code # cs0"
    by (auto split: prod.splits sum.splits)
  from Suc.IH [OF rest] GenerateShortCode_ok [OF gen] cs show ?case by auto
qed

lemma retry_loop_finds:
  "candidates rnd pos (Suc k) = Some (cs @ [code]) \<Longrightarrow> k < n \<Longrightarrow>
   \<forall>a \<in> set (fst (lookups repo cs r)). \<not> isl a \<Longrightarrow>
   repo_GetLinkByShortCode repo code (snd (lookups repo cs r)) = (Inl ErrRecordNotFound, r1) \<Longrightarrow>
   retry_loop repo n rnd pos r = (Inr code, pos + 6 * Suc k, r1)"
proof (induction k arbitrary: pos cs n r)
  case 0
  from "0.prems"(1) obtain c p1 where gen: "GenerateShortCode 6 rnd pos = (Inr c, p1)"
    and eq: "cs @ [code] = [c]"
    by (auto split: prod.splits sum.splits)
  then have cs: "cs = []" and c: "c = code" by auto
  have p1: "p1 = pos + 6" using GenerateShortCode_ok [OF gen] by simp
  from "0.prems"(2) obtain m where n: "n = Suc m" by (cases n) auto
  show ?case using gen "0.prems"(4) cs c p1 n by simp
next
  case (Suc k)
  from Suc.prems(1) obtain c p1 cs0 where gen: "GenerateShortCode 6 rnd pos = (Inr c, p1)"
    and rest: "candidates rnd p1 (Suc k) = Some cs0" and eq: "cs @ [code] = c # cs0"
    by (auto split: prod.splits sum.splits)
  have "length cs0 = Suc k" using candidates_ok [OF rest] by simp
  with eq obtain cs1 where cs: "cs = c # cs1" and cs0: "cs0 = cs1 @ [code]"
    by (cases cs) auto
  have p1: "p1 = pos + 6" using GenerateShortCode_ok [OF gen] by simp
  from Suc.prems(2) obtain m where n: "n = Suc m" and km: "k < m" by (cases n) auto
  obtain a r0 where get: "repo_GetLinkByShortCode repo c r = (a, r0)"
    by (cases "repo_GetLinkByShortCode repo c r")
  obtain as r2 where lk: "lookups repo cs1 r0 = (as, r2)" by (cases "lookups repo cs1 r0")
  from Suc.prems(3) cs get lk have a: "\<not> isl a"
    and as: "\<forall>a \<in> set (fst (lookups repo cs1 r0)). \<not> isl a"
    by auto
  from a obtain found where found: "a = Inr found" by (cases a) auto
  have chk: "repo_GetLinkByShortCode repo code (snd (lookups repo cs1 r0)) = (Inl ErrRecordNotFound, r1)"
    using Suc.prems(4) cs get lk by simp
  from Suc.IH [OF _ km as chk, of p1] rest cs0
  have "retry_loop repo m rnd p1 r0 = (Inr code, p1 + 6 * Suc k, r1)" by simp
  then show ?case using gen get found n p1 by simp
qed

lemma charset_alphabet: "set charset = set letters \<union> set digits"
proof -
  have eq: "charset = letters @ digits"
    by (simp add: charset_def letters_def digits_def)
  show ?thesis unfolding eq by (rule set_append)
qed

lemma keeps_code_table: "keeps_code table_repo"
  by (auto simp: keeps_code_def table_repo_def Let_def split: if_splits)

lemma retry_loop_failure:
  "retry_loop repo n rnd pos r = (Inl f, pos', r') \<Longrightarrow> f \<noteq> ErrRetriesExhausted"
proof (induction n arbitrary: pos r)
  case 0
  then show ?case by simp
next
  case (Suc n)
  then show ?case
    by (auto split: prod.splits sum.splits gen_failure.splits db_error.splits)
qed

lemma retry_loop_empty:
  "retry_loop repo n rnd pos r = (Inr [], pos', r') \<Longrightarrow>
   \<exists>cs. candidates rnd pos n = Some cs \<and> (\<forall>a \<in> set (fst (lookups repo cs r)). \<not> isl a)"
proof (induction n arbitrary: pos r)
  case 0
  then show ?case by simp
next
  case (Suc n)
  from Suc.prems obtain c p1 where gen: "GenerateShortCode 6 rnd pos = (Inr c, p1)"
    by (auto split: prod.splits sum.splits gen_failure.splits)
  have c: "c \<noteq> []" using GenerateShortCode_ok [OF gen] by auto
  obtain a r1 where get: "repo_GetLinkByShortCode repo c r = (a, r1)"
    by (cases "repo_GetLinkByShortCode repo c r")
  from Suc.prems gen get c obtain found where a: "a = Inr found"
    and rec: "retry_loop repo n rnd p1 r1 = (Inr [], pos', r')"
    by (cases a) (auto split: db_error.splits)
  from Suc.IH [OF rec] obtain cs where cs: "candidates rnd p1 n = Some cs"
    and coll: "\<forall>a \<in> set (fst (lookups repo cs r1)). \<not> isl a"
    by blast
  have "candidates rnd pos (Suc n) = Some (c # cs)" using gen cs by simp
  moreover have "\<forall>a \<in> set (fst (lookups repo (c # cs) r)). \<not> isl a"
    using get a coll by (auto split: prod.splits)
  ultimately show ?case by blast
qed

text \<open>
  The failure of the exhausted retries is distinct: \<^verbatim>\<open>CreateLink\<close> returns it only when
  all five candidates collided.
\<close>

lemma exhausted_only_by_collisions:
  "fst (CreateLink repo longURL rnd pos r) = Inl ErrRetriesExhausted \<Longrightarrow>
   \<exists>cs. candidates rnd pos maxRetries = Some cs \<and>
        (\<forall>a \<in> set (fst (lookups repo cs r)). \<not> isl a)"
proof -
  assume ex: "fst (CreateLink repo longURL rnd pos r) = Inl ErrRetriesExhausted"
  obtain res p1 r1 where loop: "retry_loop repo maxRetries rnd pos r = (res, p1, r1)"
    by (cases "retry_loop repo maxRetries rnd pos r")
  show ?thesis
  proof (cases res)
    case (Inl f)
    with ex loop retry_loop_failure [of repo maxRetries rnd pos r f p1 r1] show ?thesis
      by (simp add: CreateLink_def)
  next
    case (Inr code)
    with ex loop have "code = []"
      by (auto simp: CreateLink_def split: if_splits prod.splits sum.splits)
    with loop Inr have "retry_loop repo maxRetries rnd pos r = (Inr [], p1, r1)" by simp
    then show ?thesis by (rule retry_loop_empty)
  qed
qed

text \<open>
  C5. Let the random source yield five candidates in a row, and let the existence check
  of each of them answer a link. Then \<^verbatim>\<open>CreateLink\<close> returns the failure of the
  exhausted retries. It has made five attempts and no more: it has drawn 5 times 6
  characters, and the store it leaves is the one the five existence checks left, so the
  insert was never called.
\<close>

theorem create_link_exhausted:
  assumes "candidates rnd pos maxRetries = Some cs"
    and "\<forall>a \<in> set (fst (lookups repo cs r)). \<not> isl a"
  shows "length cs = 5 \<and>
         CreateLink repo longURL rnd pos r =
           (Inl ErrRetriesExhausted, pos + 6 * 5, snd (lookups repo cs r))"
  using retry_loop_exhausted [OF assms] candidates_ok [OF assms(1)]
  by (simp add: CreateLink_def maxRetries_def)

theorem create_link_exhausted_witness:
  "candidates rnd_abc 0 maxRetries = Some (replicate 5 ''abcabc'') \<and>
   CreateLink table_repo ''https://example.com'' rnd_abc 0 [link_abc] =
     (Inl ErrRetriesExhausted, 30, [link_abc])"
proof -
  have h1: "candidates rnd_abc 0 maxRetries = Some (replicate 5 ''abcabc'')"
    by code_simp
  have h2: "\<forall>a \<in> set (fst (lookups table_repo (replicate 5 ''abcabc'') [link_abc])). \<not> isl a"
    by code_simp
  have l: "snd (lookups table_repo (replicate 5 ''abcabc'') [link_abc]) = [link_abc]"
    by code_simp
  from create_link_exhausted [OF h1 h2, of "''https://example.com''"] h1 l show ?thesis by simp
qed

text \<open>
  C8. When \<^verbatim>\<open>CreateLink\<close> succeeds on a store whose insert keeps the short code, the
  code of the link has exactly 6 characters, each of the alphabet a-z, A-Z, 0-9. It is
  the candidate of one of the five attempts: the candidates before it collided, its own
  existence check answered that no record has it, and the insert ran on the store that
  this check left.
\<close>

theorem create_link_code:
  assumes "CreateLink repo longURL rnd pos r = (Inr link, pos', r')"
    and "keeps_code repo"
  shows "length (ShortCode link) = 6 \<and>
         set (ShortCode link) \<subseteq> set charset \<and>
         set (ShortCode link) \<subseteq> set letters \<union> set digits \<and>
         (\<exists>k cs r1. k < 5 \<and>
            candidates rnd pos (Suc k) = Some (cs @ [ShortCode link]) \<and>
            (\<forall>a \<in> set (fst (lookups repo cs r)). \<not> isl a) \<and>
            repo_GetLinkByShortCode repo (ShortCode link) (snd (lookups repo cs r)) =
              (Inl ErrRecordNotFound, r1) \<and>
            repo_CreateLink repo (zero_Link\<lparr>ShortCode := ShortCode link, LongURL := longURL\<rparr>) r1 =
              (Inr link, r'))"
proof -
  from assms(1) obtain code r1 where loop: "retry_loop repo maxRetries rnd pos r = (Inr code, pos', r1)"
    and ne: "code \<noteq> []"
    and ins: "repo_CreateLink repo (zero_Link\<lparr>ShortCode := code, LongURL := longURL\<rparr>) r1 = (Inr link, r')"
    by (auto simp: CreateLink_def split: prod.splits sum.splits if_splits)
  have code: "ShortCode link = code"
    using assms(2) [unfolded keeps_code_def, rule_format, OF ins] by simp
  from retry_loop_found [OF loop ne] obtain k cs where k: "k < maxRetries"
    and cand: "candidates rnd pos (Suc k) = Some (cs @ [code])"
    and coll: "\<forall>a \<in> set (fst (lookups repo cs r)). \<not> isl a"
    and chk: "repo_GetLinkByShortCode repo code (snd (lookups repo cs r)) = (Inl ErrRecordNotFound, r1)"
    by blast
  from candidates_ok [OF cand] have len: "length code = 6" and chars: "set code \<subseteq> set charset"
    by auto
  have "\<exists>k cs r1. k < 5 \<and>
            candidates rnd pos (Suc k) = Some (cs @ [code]) \<and>
            (\<forall>a \<in> set (fst (lookups repo cs r)). \<not> isl a) \<and>
            repo_GetLinkByShortCode repo code (snd (lookups repo cs r)) =
              (Inl ErrRecordNotFound, r1) \<and>
            repo_CreateLink repo (zero_Link\<lparr>ShortCode := code, LongURL := longURL\<rparr>) r1 =
              (Inr link, r')"
    using k cand coll chk ins unfolding maxRetries_def by blast
  with len chars code charset_alphabet show ?thesis by simp
qed

theorem create_link_code_witness:
  "keeps_code table_repo \<and>
   CreateLink table_repo ''https://example.com'' rnd_abc_then_a 0 [link_abc] =
     (Inr link_aaa, 12, [link_abc, link_aaa]) \<and>
   length (ShortCode link_aaa) = 6 \<and> set (ShortCode link_aaa) \<subseteq> set charset \<and>
   fst (repo_GetLinkByShortCode table_repo (ShortCode link_aaa) [link_abc]) = Inl ErrRecordNotFound"
proof -
  have absent: "fst (repo_GetLinkByShortCode table_repo (ShortCode link_aaa) [link_abc]) =
      Inl ErrRecordNotFound"
    by code_simp
  have run: "CreateLink table_repo ''https://example.com'' rnd_abc_then_a 0 [link_abc] =
     (Inr link_aaa, 12, [link_abc, link_aaa])"
    by code_simp
  from create_link_code [OF run keeps_code_table] run keeps_code_table absent
  show ?thesis by simp
qed

lemma alias_char_alphabet:
  "alias_char c = (c \<in> set letters \<or> c \<in> set digits \<or> c = CHR ''-'')"
  by (cases c) (simp add: alias_char_def letters_def digits_def Let_def)

lemma satisfies_chars: "satisfies a LettersDigitsHyphen = list_all alias_char a"
  by (simp add: list_all_iff alias_char_alphabet)

lemma member_reservedWords:
  "(a \<in> set reservedWords) = (\<not> satisfies a NotReserved)"
  by (simp add: reservedWords_def)

lemma alias_chars_one_byte: "list_all alias_char a \<Longrightarrow> utf8_chars a = length a"
proof -
  assume "list_all alias_char a"
  then have "filter (\<lambda>c. \<not> (128 \<le> (of_char c :: nat) \<and> (of_char c :: nat) < 192)) a = a"
    by (induction a) (auto simp: alias_char_def Let_def)
  then show ?thesis by (simp add: utf8_chars_def)
qed

lemma utf8_chars_le: "utf8_chars a \<le> length a"
  by (simp add: utf8_chars_def)

lemma length_rule_in_bytes:
  "utf8_chars a = length a \<Longrightarrow>
   (length a < 3 \<or> 20 < length a) = (\<not> satisfies a LengthIn3To20)"
  by auto

lemma CreateLinkWithCustomAlias_rules:
  "CreateLinkWithCustomAlias repo longURL a r =
     (if \<not> satisfies a NonEmpty then (Inl ErrAliasEmpty, r)
      else if length a < 3 \<or> 20 < length a then (Inl ErrAliasLength, r)
      else if \<not> satisfies a LettersDigitsHyphen then (Inl ErrAliasChars, r)
      else if \<not> satisfies a NotReserved then (Inl (ErrAliasReserved a), r)
      else
        (case repo_GetLinkByShortCode repo a r of
           (Inr existingLink, r') \<Rightarrow> (Inl (ErrAliasTaken a), r')
         | (Inl e, r') \<Rightarrow>
             if e \<noteq> ErrRecordNotFound then (Inl (ErrCheckingAlias e), r')
             else
               (case repo_CreateLink repo
                       (zero_Link\<lparr>ShortCode := a, LongURL := longURL, IsCustom := True\<rparr>) r' of
                  (Inl e', r'') \<Rightarrow> (Inl (ErrCreatingAliasLink e'), r'')
                | (Inr link, r'') \<Rightarrow> (Inr link, r''))))"
proof -
  have c1: "(a = []) = (\<not> satisfies a NonEmpty)" by simp
  have c3: "validAliasPattern a = (satisfies a NonEmpty \<and> satisfies a LettersDigitsHyphen)"
    unfolding validAliasPattern_def satisfies_chars by simp
  show ?thesis
    unfolding CreateLinkWithCustomAlias_def c1 c3 member_reservedWords
    by (simp del: satisfies.simps)
qed

lemma first_violated_cases:
  "first_violated a =
     (if \<not> satisfies a NonEmpty then Some NonEmpty
      else if \<not> satisfies a LengthIn3To20 then Some LengthIn3To20
      else if \<not> satisfies a LettersDigitsHyphen then Some LettersDigitsHyphen
      else if \<not> satisfies a NotReserved then Some NotReserved
      else None)"
  unfolding first_violated_def rule_order_def by (simp del: satisfies.simps)

lemma alias_rule_violated:
  "utf8_chars a = length a \<Longrightarrow> first_violated a = Some rule \<Longrightarrow>
   CreateLinkWithCustomAlias repo longURL a r = (Inl (rule_error rule a), r)"
  unfolding first_violated_cases CreateLinkWithCustomAlias_rules
  by (auto simp del: satisfies.simps simp add: length_rule_in_bytes split: if_splits)

lemma alias_rules_pass:
  "first_violated a = None \<Longrightarrow>
   CreateLinkWithCustomAlias repo longURL a r =
     (case repo_GetLinkByShortCode repo a r of
        (Inr existingLink, r') \<Rightarrow> (Inl (ErrAliasTaken a), r')
      | (Inl e, r') \<Rightarrow>
          if e \<noteq> ErrRecordNotFound then (Inl (ErrCheckingAlias e), r')
          else
            (case repo_CreateLink repo
                    (zero_Link\<lparr>ShortCode := a, LongURL := longURL, IsCustom := True\<rparr>) r' of
               (Inl e', r'') \<Rightarrow> (Inl (ErrCreatingAliasLink e'), r'')
             | (Inr link, r'') \<Rightarrow> (Inr link, r'')))"
proof -
  assume none: "first_violated a = None"
  then have ok: "satisfies a NonEmpty" "satisfies a LengthIn3To20"
    "satisfies a LettersDigitsHyphen" "satisfies a NotReserved"
    unfolding first_violated_cases by (auto simp del: satisfies.simps split: if_splits)
  from ok(3) have "utf8_chars a = length a"
    by (simp only: satisfies_chars alias_chars_one_byte)
  with ok(2) have "\<not> (length a < 3 \<or> 20 < length a)"
    by (simp only: length_rule_in_bytes simp_thms)
  with ok show ?thesis
    unfolding CreateLinkWithCustomAlias_rules by (simp del: satisfies.simps)
qed

lemma alias_violation_rejected:
  "first_violated a = Some rule \<Longrightarrow>
   \<exists>f. CreateLinkWithCustomAlias repo longURL a r = (Inl f, r)"
proof (cases "list_all alias_char a")
  case True
  assume v: "first_violated a = Some rule"
  show ?thesis
    using alias_rule_violated [OF alias_chars_one_byte [OF True] v, of repo longURL r] by simp
next
  case False
  then have "\<not> satisfies a LettersDigitsHyphen"
    by (simp add: satisfies_chars del: satisfies.simps)
  then show ?thesis
    unfolding CreateLinkWithCustomAlias_rules by (simp del: satisfies.simps)
qed


lemma table_lookup:
  "repo_GetLinkByShortCode table_repo code rows =
     (case find (\<lambda>l. ShortCode l = code) rows of
        None \<Rightarrow> Inl ErrRecordNotFound | Some l \<Rightarrow> Inr l, rows)"
  by (simp add: table_repo_def)

lemma table_lookup_absent:
  "(fst (repo_GetLinkByShortCode table_repo code rows) = Inl ErrRecordNotFound) =
   (\<not> list_ex (\<lambda>l. ShortCode l = code) rows)"
  by (induction rows) (auto simp: table_lookup)

lemma table_lookup_present:
  "list_ex (\<lambda>l. ShortCode l = code) rows \<Longrightarrow>
   \<exists>l. repo_GetLinkByShortCode table_repo code rows = (Inr l, rows) \<and> ShortCode l = code"
  by (induction rows) (auto simp: table_lookup)

text \<open>
  What \<^verbatim>\<open>CreateLinkWithCustomAlias\<close> does keep of the rules. An alias that violates a rule
  gets an error and the store is returned untouched: neither the lookup nor the insert
  is called. When no character of the alias takes more than one byte, the error is the
  one of the first rule violated, in the order of the specification. An alias that
  violates no rule and whose lookup answers a link gets "already used", and the store is
  the one the lookup left: the insert is not called. On the table, an alias that a row
  has as its code never adds a row.
\<close>

lemma custom_alias_rules_kept:
  "(first_violated customAlias = Some rule \<longrightarrow>
      (\<exists>f. CreateLinkWithCustomAlias repo longURL customAlias r = (Inl f, r)) \<and>
      (utf8_chars customAlias = length customAlias \<longrightarrow>
         CreateLinkWithCustomAlias repo longURL customAlias r =
           (Inl (rule_error rule customAlias), r))) \<and>
   (first_violated customAlias = None \<longrightarrow>
      repo_GetLinkByShortCode repo customAlias r = (Inr existing, r1) \<longrightarrow>
      CreateLinkWithCustomAlias repo longURL customAlias r = (Inl (ErrAliasTaken customAlias), r1)) \<and>
   (list_ex (\<lambda>l. ShortCode l = customAlias) rows \<longrightarrow>
      (\<exists>f. CreateLinkWithCustomAlias table_repo longURL customAlias rows = (Inl f, rows)) \<and>
      (first_violated customAlias = None \<longrightarrow>
         CreateLinkWithCustomAlias table_repo longURL customAlias rows =
           (Inl (ErrAliasTaken customAlias), rows)))"
proof (intro conjI impI)
  assume "first_violated customAlias = Some rule"
  then show "\<exists>f. CreateLinkWithCustomAlias repo longURL customAlias r = (Inl f, r)"
    by (rule alias_violation_rejected)
next
  assume "first_violated customAlias = Some rule"
    and "utf8_chars customAlias = length customAlias"
  then show "CreateLinkWithCustomAlias repo longURL customAlias r =
      (Inl (rule_error rule customAlias), r)"
    by (simp add: alias_rule_violated)
next
  assume "first_violated customAlias = None"
    and "repo_GetLinkByShortCode repo customAlias r = (Inr existing, r1)"
  then show "CreateLinkWithCustomAlias repo longURL customAlias r = (Inl (ErrAliasTaken customAlias), r1)"
    by (simp add: alias_rules_pass)
next
  assume present: "list_ex (\<lambda>l. ShortCode l = customAlias) rows"
  then obtain l where get: "repo_GetLinkByShortCode table_repo customAlias rows = (Inr l, rows)"
    using table_lookup_present by blast
  show "\<exists>f. CreateLinkWithCustomAlias table_repo longURL customAlias rows = (Inl f, rows)"
  proof (cases "first_violated customAlias")
    case None
    then show ?thesis using get by (simp add: alias_rules_pass)
  next
    case (Some v)
    then show ?thesis by (rule alias_violation_rejected)
  qed
  assume "first_violated customAlias = None"
  then show "CreateLinkWithCustomAlias table_repo longURL customAlias rows = (Inl (ErrAliasTaken customAlias), rows)"
    using get by (simp add: alias_rules_pass)
qed

lemma custom_alias_rules_kept_runs:
  "CreateLinkWithCustomAlias table_repo ''https://example.com'' [] [link_promo] =
     (Inl ErrAliasEmpty, [link_promo]) \<and>
   CreateLinkWithCustomAlias table_repo ''https://example.com'' ''a_'' [link_promo] =
     (Inl ErrAliasLength, [link_promo]) \<and>
   CreateLinkWithCustomAlias table_repo ''https://example.com'' ''a_c'' [link_promo] =
     (Inl ErrAliasChars, [link_promo]) \<and>
   CreateLinkWithCustomAlias table_repo ''https://example.com'' ''api'' [link_promo] =
     (Inl (ErrAliasReserved ''api''), [link_promo]) \<and>
   CreateLinkWithCustomAlias table_repo ''https://example.com'' ''promo'' [link_promo] =
     (Inl (ErrAliasTaken ''promo''), [link_promo])"
proof -
  have v1: "first_violated [] = Some NonEmpty" by code_simp
  have v2: "first_violated ''a_'' = Some LengthIn3To20" by code_simp
  have v3: "first_violated ''a_c'' = Some LettersDigitsHyphen" by code_simp
  have v4: "first_violated ''api'' = Some NotReserved" by code_simp
  have v5: "first_violated ''promo'' = None" by code_simp
  have u1: "utf8_chars [] = length ([] :: string)" by code_simp
  have u2: "utf8_chars ''a_'' = length ''a_''" by code_simp
  have u3: "utf8_chars ''a_c'' = length ''a_c''" by code_simp
  have u4: "utf8_chars ''api'' = length ''api''" by code_simp
  have get: "repo_GetLinkByShortCode table_repo ''promo'' [link_promo] = (Inr link_promo, [link_promo])"
    by code_simp
  have present: "list_ex (\<lambda>l. ShortCode l = ''promo'') [link_promo]" by code_simp
  show ?thesis
    using custom_alias_rules_kept [of "[]" NonEmpty table_repo "''https://example.com''" "[link_promo]"]
      custom_alias_rules_kept [of "''a_''" LengthIn3To20 table_repo "''https://example.com''" "[link_promo]"]
      custom_alias_rules_kept [of "''a_c''" LettersDigitsHyphen table_repo "''https://example.com''" "[link_promo]"]
      custom_alias_rules_kept [of "''api''" NotReserved table_repo "''https://example.com''" "[link_promo]"]
      custom_alias_rules_kept [of "''promo''" NotReserved table_repo "''https://example.com''" "[link_promo]"
        link_promo "[link_promo]" "[link_promo]"]
      v1 v2 v3 v4 v5 u1 u2 u3 u4 get present
    by simp
qed

text \<open>
  C6. The code measures the length of the alias in bytes (\<^verbatim>\<open>len(customAlias)\<close>), while the
  rule, as its own comment and message word it, is in characters. So the error does not
  always name the first rule violated. The alias of the letter e acute followed by an a
  has 2 characters: the first rule it violates is the length, but its 3 bytes pass the
  length test and the error is the one of the characters. The alias of 11 times that
  letter has 11 characters, a legal length: the first rule it violates is the one of the
  characters, but its 22 bytes fail the length test and the error is the one of the
  length. In both runs no link is created.
\<close>

theorem custom_alias_length_in_bytes:
  "utf8_chars alias_e_acute_a = 2 \<and> length alias_e_acute_a = 3 \<and>
   first_violated alias_e_acute_a = Some LengthIn3To20 \<and>
   CreateLinkWithCustomAlias table_repo ''https://example.com'' alias_e_acute_a [link_promo] =
     (Inl ErrAliasChars, [link_promo]) \<and>
   utf8_chars alias_11_e_acute = 11 \<and> length alias_11_e_acute = 22 \<and>
   first_violated alias_11_e_acute = Some LettersDigitsHyphen \<and>
   CreateLinkWithCustomAlias table_repo ''https://example.com'' alias_11_e_acute [link_promo] =
     (Inl ErrAliasLength, [link_promo])"
  by code_simp

text \<open>
  C7, as the code has it. When the insert fails, with a uniqueness conflict or any other
  error \<open>e\<close>, both operations return \<open>e\<close> wrapped as a failure to create the link.
  \<^verbatim>\<open>CreateLink\<close> draws no further candidate: the position of the random source is the
  one after the candidate that passed its existence check.
  \<^verbatim>\<open>CreateLinkWithCustomAlias\<close> does not answer "already used".
\<close>

theorem insert_failure_propagated:
  "(candidates rnd pos (Suc k) = Some (cs @ [code]) \<longrightarrow> k < maxRetries \<longrightarrow>
      (\<forall>a \<in> set (fst (lookups repo cs r)). \<not> isl a) \<longrightarrow>
      repo_GetLinkByShortCode repo code (snd (lookups repo cs r)) = (Inl ErrRecordNotFound, r1) \<longrightarrow>
      repo_CreateLink repo (zero_Link\<lparr>ShortCode := code, LongURL := longURL\<rparr>) r1 = (Inl e, r2) \<longrightarrow>
      CreateLink repo longURL rnd pos r = (Inl (ErrCreatingLink e), pos + 6 * Suc k, r2)) \<and>
   (first_violated customAlias = None \<longrightarrow>
      repo_GetLinkByShortCode repo customAlias r = (Inl ErrRecordNotFound, r1) \<longrightarrow>
      repo_CreateLink repo
        (zero_Link\<lparr>ShortCode := customAlias, LongURL := longURL, IsCustom := True\<rparr>) r1 = (Inl e, r2) \<longrightarrow>
      CreateLinkWithCustomAlias repo longURL customAlias r = (Inl (ErrCreatingAliasLink e), r2))"
proof (intro conjI impI)
  assume cand: "candidates rnd pos (Suc k) = Some (cs @ [code])" and k: "k < maxRetries"
    and coll: "\<forall>a \<in> set (fst (lookups repo cs r)). \<not> isl a"
    and chk: "repo_GetLinkByShortCode repo code (snd (lookups repo cs r)) = (Inl ErrRecordNotFound, r1)"
    and ins: "repo_CreateLink repo (zero_Link\<lparr>ShortCode := code, LongURL := longURL\<rparr>) r1 = (Inl e, r2)"
  have "length code = 6" using candidates_ok [OF cand] by simp
  then have ne: "code \<noteq> []" by auto
  from retry_loop_finds [OF cand k coll chk] ne ins
  show "CreateLink repo longURL rnd pos r = (Inl (ErrCreatingLink e), pos + 6 * Suc k, r2)"
    by (simp add: CreateLink_def)
next
  assume "first_violated customAlias = None"
    and "repo_GetLinkByShortCode repo customAlias r = (Inl ErrRecordNotFound, r1)"
    and "repo_CreateLink repo
        (zero_Link\<lparr>ShortCode := customAlias, LongURL := longURL, IsCustom := True\<rparr>) r1 = (Inl e, r2)"
  then show "CreateLinkWithCustomAlias repo longURL customAlias r = (Inl (ErrCreatingAliasLink e), r2)"
    by (simp add: alias_rules_pass)
qed

theorem insert_failure_propagated_witness:
  "CreateLink racy_repo ''https://example.com'' rnd_abc 0 ([], [link_abc]) =
     (Inl (ErrCreatingLink ErrDuplicatedKey), 6, ([link_abc], [])) \<and>
   CreateLinkWithCustomAlias racy_repo ''https://example.com'' ''promo'' ([], [link_promo]) =
     (Inl (ErrCreatingAliasLink ErrDuplicatedKey), ([link_promo], []))"
proof -
  have cand: "candidates rnd_abc 0 (Suc 0) = Some ([] @ [''abcabc''])" by code_simp
  have k: "0 < maxRetries" by (simp add: maxRetries_def)
  have chk: "repo_GetLinkByShortCode racy_repo ''abcabc'' (snd (lookups racy_repo [] ([], [link_abc]))) =
      (Inl ErrRecordNotFound, ([link_abc], []))"
    by code_simp
  have ins: "repo_CreateLink racy_repo
      (zero_Link\<lparr>ShortCode := ''abcabc'', LongURL := ''https://example.com''\<rparr>) ([link_abc], []) =
      (Inl ErrDuplicatedKey, ([link_abc], []))"
    by code_simp
  have v: "first_violated ''promo'' = None" by code_simp
  have chk': "repo_GetLinkByShortCode racy_repo ''promo'' ([], [link_promo]) =
      (Inl ErrRecordNotFound, ([link_promo], []))"
    by code_simp
  have ins': "repo_CreateLink racy_repo
      (zero_Link\<lparr>ShortCode := ''promo'', LongURL := ''https://example.com'', IsCustom := True\<rparr>)
      ([link_promo], []) = (Inl ErrDuplicatedKey, ([link_promo], []))"
    by code_simp
  show ?thesis
    using insert_failure_propagated [of rnd_abc 0 0 "[]" "''abcabc''" racy_repo "([], [link_abc])"
        "([link_abc], [])" "''https://example.com''" ErrDuplicatedKey "([link_abc], [])"
        "''promo''" ]
      insert_failure_propagated [of rnd_abc 0 0 "[]" "''abcabc''" racy_repo "([], [link_promo])"
        "([link_promo], [])" "''https://example.com''" ErrDuplicatedKey "([link_promo], [])"
        "''promo''" ]
      cand k chk ins v chk' ins'
    by simp
qed

text \<open>
  C7 as stated fails. Another client inserts the code between the existence check and
  the insert, so the insert answers a uniqueness conflict. \<^verbatim>\<open>CreateLink\<close> returns the
  conflict after 6 draws, one candidate, although the next candidate of the source is
  free; \<^verbatim>\<open>CreateLinkWithCustomAlias\<close> returns the failed insert, not "already used".
\<close>

theorem insert_conflict_counterexample:
  "fst (CreateLink racy_repo ''https://example.com'' rnd_abc_then_a 0 ([], [link_abc])) =
     Inl (ErrCreatingLink ErrDuplicatedKey) \<and>
   fst (snd (CreateLink racy_repo ''https://example.com'' rnd_abc_then_a 0 ([], [link_abc]))) = 6 \<and>
   fst (CreateLink table_repo ''https://example.com'' rnd_abc_then_a 0 [link_abc]) = Inr link_aaa \<and>
   fst (CreateLinkWithCustomAlias racy_repo ''https://example.com'' ''promo'' ([], [link_promo])) =
     Inl (ErrCreatingAliasLink ErrDuplicatedKey) \<and>
   fst (CreateLinkWithCustomAlias racy_repo ''https://example.com'' ''promo'' ([], [link_promo])) \<noteq>
     Inl (ErrAliasTaken ''promo'')"
  by code_simp

section \<open>Properties of the redirect path\<close>

lemma middleware_allowed:
  "fst (isAllowed limiter (now1 clk) ip) \<Longrightarrow> rest w = (resp, w') \<Longrightarrow>
   status (fst (RateLimitMiddleware limiter clk ip rest w)) = status resp \<and>
   body (fst (RateLimitMiddleware limiter clk ip rest w)) = body resp \<and>
   snd (snd (RateLimitMiddleware limiter clk ip rest w)) = w'"
  by (auto simp: RateLimitMiddleware_def split: prod.splits bool.splits)

lemma middleware_rejected:
  "\<not> fst (isAllowed limiter (now1 clk) ip) \<Longrightarrow>
   status (fst (RateLimitMiddleware limiter clk ip rest w)) = 429 \<and>
   snd (snd (RateLimitMiddleware limiter clk ip rest w)) = w"
  by (auto simp: RateLimitMiddleware_def Let_def split: prod.splits bool.splits)

text \<open>
  C3, as the code has it. Let the lookup of the requested code answer a link whose
  \<open>ExpiresAt\<close> is set and strictly before the clock reading of \<^verbatim>\<open>IsExpired\<close>. Then
  \<^verbatim>\<open>RedirectHandler\<close> answers 410 with the expiry instant in the body and leaves the
  channel as it was, full or not: no click event is emitted. Behind the middleware the
  same holds for every request that the rate limiter allows.
\<close>

theorem expired_link_gone:
  assumes "repo_GetLinkByShortCode repo (shortCodeParam req) (store w) = (Inr link, r')"
    and "ExpiresAt link = Some e"
    and "After t_expiry e"
  shows "RedirectHandler repo req t_expiry t_event w =
           (\<lparr>status = 410, headers = [],
             body = [(''error'', JStr ''This link has expired''), (''expired_at'', JTime e)]\<rparr>,
            w\<lparr>store := r', logged := logged w @ [LogExpired (shortCodeParam req) (Some e)]\<rparr>) \<and>
         events (snd (RedirectHandler repo req t_expiry t_event w)) = events w \<and>
         (fst (isAllowed limiter (now1 clk) (clientIP req)) \<longrightarrow>
            status (fst (RedirectPipeline repo limiter clk req t_expiry t_event w)) = 410 \<and>
            body (fst (RedirectPipeline repo limiter clk req t_expiry t_event w)) =
              [(''error'', JStr ''This link has expired''), (''expired_at'', JTime e)] \<and>
            events (snd (snd (RedirectPipeline repo limiter clk req t_expiry t_event w))) = events w)"
proof -
  have h: "RedirectHandler repo req t_expiry t_event w =
           (\<lparr>status = 410, headers = [],
             body = [(''error'', JStr ''This link has expired''), (''expired_at'', JTime e)]\<rparr>,
            w\<lparr>store := r', logged := logged w @ [LogExpired (shortCodeParam req) (Some e)]\<rparr>)"
    using assms by (simp add: RedirectHandler_def GetLinkByShortCode_def IsExpired_def Let_def)
  show ?thesis
  proof (intro conjI impI)
    show "RedirectHandler repo req t_expiry t_event w =
           (\<lparr>status = 410, headers = [],
             body = [(''error'', JStr ''This link has expired''), (''expired_at'', JTime e)]\<rparr>,
            w\<lparr>store := r', logged := logged w @ [LogExpired (shortCodeParam req) (Some e)]\<rparr>)"
      by (rule h)
    show "events (snd (RedirectHandler repo req t_expiry t_event w)) = events w"
      by (simp add: h)
    assume ok: "fst (isAllowed limiter (now1 clk) (clientIP req))"
    note m = middleware_allowed [where rest = "RedirectHandler repo req t_expiry t_event"
        and w = w, OF ok h, folded RedirectPipeline_def]
    from m show "status (fst (RedirectPipeline repo limiter clk req t_expiry t_event w)) = 410"
      by simp
    from m show "body (fst (RedirectPipeline repo limiter clk req t_expiry t_event w)) =
              [(''error'', JStr ''This link has expired''), (''expired_at'', JTime e)]"
      by simp
    from m show "events (snd (snd (RedirectPipeline repo limiter clk req t_expiry t_event w))) = events w"
      by simp
  qed
qed

theorem expired_link_gone_witness:
  "RedirectHandler table_repo req_old 30 31 world_full =
     (\<lparr>status = 410, headers = [],
       body = [(''error'', JStr ''This link has expired''), (''expired_at'', JTime 5)]\<rparr>,
      world_full\<lparr>logged := [LogExpired ''old123'' (Some 5)]\<rparr>) \<and>
   status (fst (RedirectPipeline table_repo limiter2 at30 req_old 30 31 world_full)) = 410 \<and>
   status (fst (RedirectPipeline table_repo limiter2 at30 req_old 30 31 world_idle)) = 410 \<and>
   events (snd (snd (RedirectPipeline table_repo limiter2 at30 req_old 30 31 world_idle))) =
     \<lparr>buf = [], cap = 2\<rparr>"
proof -
  have get: "repo_GetLinkByShortCode table_repo (shortCodeParam req_old) (store world_full) =
      (Inr link_old, [link_old, link_live])"
    by code_simp
  have get': "repo_GetLinkByShortCode table_repo (shortCodeParam req_old) (store world_idle) =
      (Inr link_old, [link_old, link_live])"
    by code_simp
  have ex: "ExpiresAt link_old = Some 5" by (simp add: link_old_def)
  have past: "After 30 5" by (simp add: After_def)
  have ok: "fst (isAllowed limiter2 (now1 at30) (clientIP req_old))" by code_simp
  show ?thesis
    using expired_link_gone [OF get ex past, of 31 limiter2 at30]
      expired_link_gone [OF get' ex past, of 31 limiter2 at30] ok
    by (simp add: world_full_def world_idle_def req_old_def)
qed

text \<open>
  C3 as stated fails for a request that the rate limiter rejects: the middleware answers
  429 and aborts the chain, so the expired link is never looked at.
\<close>

theorem expired_link_rate_limited_counterexample:
  "repo_GetLinkByShortCode table_repo (shortCodeParam req_old) (store world_idle) =
     (Inr link_old, store world_idle) \<and>
   ExpiresAt link_old = Some 5 \<and>
   status (fst (RedirectPipeline table_repo limiter2_spent at30 req_old 30 31 world_idle)) = 429"
  by code_simp

text \<open>
  C4. Let a request reach the emit step (the lookup answers a link that has not expired)
  while the buffer of the channel holds as many events as its capacity. Then the send
  takes the default case at once and answers false, the channel is left as it was (the
  event is dropped), the only other effect is the warning in the log, and the response
  is the 302 redirect to the link's long URL; so it is behind the middleware.
\<close>

theorem redirect_when_channel_full:
  assumes "repo_GetLinkByShortCode repo (shortCodeParam req) (store w) = (Inr link, r')"
    and "\<not> IsExpired link t_expiry"
    and "0 < cap (events w)"
    and "cap (events w) \<le> length (buf (events w))"
  shows "tryEmit ev (events w) = (False, events w) \<and>
         RedirectHandler repo req t_expiry t_event w =
           (\<lparr>status = 302, headers = [(''Location'', JStr (LongURL link))], body = []\<rparr>,
            w\<lparr>store := r', logged := logged w @ [LogChannelFull (shortCodeParam req)]\<rparr>) \<and>
         (fst (isAllowed limiter (now1 clk) (clientIP req)) \<longrightarrow>
            status (fst (RedirectPipeline repo limiter clk req t_expiry t_event w)) = 302 \<and>
            events (snd (snd (RedirectPipeline repo limiter clk req t_expiry t_event w))) = events w)"
proof -
  have e: "tryEmit ev (events w) = (False, events w)" for ev
    using assms(4) by (simp add: tryEmit_def)
  have h: "RedirectHandler repo req t_expiry t_event w =
           (\<lparr>status = 302, headers = [(''Location'', JStr (LongURL link))], body = []\<rparr>,
            w\<lparr>store := r', logged := logged w @ [LogChannelFull (shortCodeParam req)]\<rparr>)"
    using assms(1,2) by (simp add: RedirectHandler_def GetLinkByShortCode_def Let_def e)
  show ?thesis
  proof (intro conjI impI)
    show "tryEmit ev (events w) = (False, events w)" by (rule e)
    show "RedirectHandler repo req t_expiry t_event w =
           (\<lparr>status = 302, headers = [(''Location'', JStr (LongURL link))], body = []\<rparr>,
            w\<lparr>store := r', logged := logged w @ [LogChannelFull (shortCodeParam req)]\<rparr>)"
      by (rule h)
    assume ok: "fst (isAllowed limiter (now1 clk) (clientIP req))"
    note m = middleware_allowed [where rest = "RedirectHandler repo req t_expiry t_event"
        and w = w, OF ok h, folded RedirectPipeline_def]
    from m show "status (fst (RedirectPipeline repo limiter clk req t_expiry t_event w)) = 302"
      by simp
    from m show "events (snd (snd (RedirectPipeline repo limiter clk req t_expiry t_event w))) = events w"
      by simp
  qed
qed


theorem redirect_when_channel_full_witness:
  "tryEmit click0 (events world_full) = (False, events world_full) \<and>
   RedirectHandler table_repo req_live 30 31 world_full =
     (\<lparr>status = 302, headers = [(''Location'', JStr ''https://example.org/b'')], body = []\<rparr>,
      world_full\<lparr>logged := [LogChannelFull ''liv456'']\<rparr>) \<and>
   status (fst (RedirectPipeline table_repo limiter2 at30 req_live 30 31 world_full)) = 302"
proof -
  have get: "repo_GetLinkByShortCode table_repo (shortCodeParam req_live) (store world_full) =
      (Inr link_live, [link_old, link_live])"
    by code_simp
  have live: "\<not> IsExpired link_live 30" by code_simp
  have c: "0 < cap (events world_full)" by code_simp
  have full: "cap (events world_full) \<le> length (buf (events world_full))" by code_simp
  have ok: "fst (isAllowed limiter2 (now1 at30) (clientIP req_live))" by code_simp
  show ?thesis
    using redirect_when_channel_full [OF get live c full, of click0 31 limiter2 at30] ok
    by (simp add: world_full_def req_live_def link_live_def)
qed

end
